theory Spec2Isabelle
  imports Main "HOL-Library.Sublist"
begin

section \<open>Smart Home Automation: the object store\<close>

text \<open>
  The program in \<^verbatim>\<open>main.py\<close> mutates shared objects: one \<^verbatim>\<open>Device\<close> is reached from
  several commands, from a caretaker and from the interpreter, and one command object can
  sit in a list more than once. Objects are therefore kept in a store and named by
  references. A Python reference always points to a live object, so every store is a total
  function from references to objects. Everything that the program prints, and every call
  of an observer's \<^verbatim>\<open>update\<close>, is appended to the event list \<open>out\<close> of the store.
\<close>

type_synonym ref = nat

text \<open>
  \<open>Update obs msg\<close> records the call \<^verbatim>\<open>obs.update(msg)\<close>; \<open>Print line\<close> records
  a \<^verbatim>\<open>print(line)\<close> made anywhere else.
\<close>

datatype event = Update ref string | Print string

text \<open>\<^verbatim>\<open>UserApp.update\<close>, the only concrete observer: the line it writes to the console.\<close>

fun console :: "event \<Rightarrow> string" where
  "console (Update obs msg) = ''[Notification] '' @ msg"
| "console (Print line) = line"

fun is_Update :: "event \<Rightarrow> bool" where
  "is_Update (Update obs msg) = True"
| "is_Update (Print line) = False"

record Device =
  name :: string
  state :: string
  observers :: "ref list"

datatype CommandClass = TurnOnCommand | TurnOffCommand

text \<open>\<open>previous_state\<close> is \<open>None\<close> as long as the command has never been executed.\<close>

record Command =
  cls :: CommandClass
  device :: ref
  previous_state :: "string option"

record heap =
  devices :: "ref \<Rightarrow> Device"
  commands :: "ref \<Rightarrow> Command"
  out :: "event list"

section \<open>Observer: \<^verbatim>\<open>Device\<close>\<close>

text \<open>\<^verbatim>\<open>Device.__init__\<close>\<close>

definition Device_init :: "string \<Rightarrow> Device" where
  "Device_init n = \<lparr>name = n, state = ''OFF'', observers = []\<rparr>"

text \<open>Binding a freshly constructed device to the reference \<open>d\<close>.\<close>

definition new_Device :: "ref \<Rightarrow> string \<Rightarrow> heap \<Rightarrow> heap" where
  "new_Device d n s = s\<lparr>devices := (devices s)(d := Device_init n)\<rparr>"

text \<open>\<^verbatim>\<open>Device.add_observer\<close> and \<^verbatim>\<open>Device.remove_observer\<close>; \<^verbatim>\<open>list.remove\<close> deletes the
  first occurrence.\<close>

definition add_observer :: "ref \<Rightarrow> ref \<Rightarrow> heap \<Rightarrow> heap" where
  "add_observer d obs s =
     (let dev = devices s d in
      if obs \<notin> set (observers dev)
      then s\<lparr>devices := (devices s)(d := dev\<lparr>observers := observers dev @ [obs]\<rparr>)\<rparr>
      else s)"

definition remove_observer :: "ref \<Rightarrow> ref \<Rightarrow> heap \<Rightarrow> heap" where
  "remove_observer d obs s =
     (let dev = devices s d in
      if obs \<in> set (observers dev)
      then s\<lparr>devices := (devices s)(d := dev\<lparr>observers := remove1 obs (observers dev)\<rparr>)\<rparr>
      else s)"

text \<open>The loop \<^verbatim>\<open>for o in self.observers: o.update(msg)\<close>, as the events it produces.\<close>

primrec notify :: "ref list \<Rightarrow> string \<Rightarrow> event list" where
  "notify [] msg = []"
| "notify (obs # rest) msg = Update obs msg # notify rest msg"

text \<open>\<^verbatim>\<open>Device.set_state\<close>; the message is \<^verbatim>\<open>f"{self.name} -> {self.state}"\<close>.\<close>

definition set_state :: "ref \<Rightarrow> string \<Rightarrow> heap \<Rightarrow> heap" where
  "set_state d st s =
     (let dev = devices s d;
          old_state = state dev;
          s1 = s\<lparr>devices := (devices s)(d := dev\<lparr>state := st\<rparr>)\<rparr>
      in if old_state \<noteq> st
         then s1\<lparr>out := out s1 @ notify (observers dev) (name dev @ '' -> '' @ st)\<rparr>
         else s1)"

section \<open>Command: reversible actions and their history\<close>

text \<open>The status a command class writes: \<^verbatim>\<open>"ON"\<close> for \<^verbatim>\<open>TurnOnCommand\<close>, \<^verbatim>\<open>"OFF"\<close> for
  \<^verbatim>\<open>TurnOffCommand\<close>.\<close>

fun target :: "CommandClass \<Rightarrow> string" where
  "target TurnOnCommand = ''ON''"
| "target TurnOffCommand = ''OFF''"

text \<open>\<^verbatim>\<open>TurnOnCommand.execute\<close> and \<^verbatim>\<open>TurnOffCommand.execute\<close>.\<close>

definition Command_execute :: "ref \<Rightarrow> heap \<Rightarrow> heap" where
  "Command_execute c s =
     (let cmd = commands s c;
          s1 = s\<lparr>commands :=
                   (commands s)(c := cmd\<lparr>previous_state := Some (state (devices s (device cmd)))\<rparr>)\<rparr>
      in set_state (device cmd) (target (cls cmd)) s1)"

text \<open>Python's truth value of \<^verbatim>\<open>self.previous_state\<close>: \<^verbatim>\<open>None\<close> and the empty string
  are false, every other string is true.\<close>

fun truthy :: "string option \<Rightarrow> bool" where
  "truthy None = False"
| "truthy (Some p) = (p \<noteq> [])"

text \<open>\<^verbatim>\<open>TurnOnCommand.undo\<close> and \<^verbatim>\<open>TurnOffCommand.undo\<close> (the two bodies are the same).\<close>

definition Command_undo :: "ref \<Rightarrow> heap \<Rightarrow> heap" where
  "Command_undo c s =
     (let cmd = commands s c in
      case previous_state cmd of
        None \<Rightarrow> s
      | Some p \<Rightarrow> if truthy (Some p) then set_state (device cmd) p s else s)"

text \<open>\<^verbatim>\<open>CommandHistory\<close>: both Python lists grow and shrink at their end.\<close>

record CommandHistory =
  history :: "ref list"
  redo_stack :: "ref list"

definition CommandHistory_init :: CommandHistory where
  "CommandHistory_init = \<lparr>history = [], redo_stack = []\<rparr>"

definition execute_command :: "ref \<Rightarrow> CommandHistory \<times> heap \<Rightarrow> CommandHistory \<times> heap" where
  "execute_command c hs =
     (let h = fst hs; s = snd hs;
          s1 = Command_execute c s
      in (h\<lparr>history := history h @ [c], redo_stack := []\<rparr>, s1))"

definition undo :: "CommandHistory \<times> heap \<Rightarrow> CommandHistory \<times> heap" where
  "undo hs =
     (let h = fst hs; s = snd hs in
      if history h \<noteq> []
      then let command = last (history h);
               h1 = h\<lparr>history := butlast (history h)\<rparr>;
               s1 = Command_undo command s
           in (h1\<lparr>redo_stack := redo_stack h1 @ [command]\<rparr>, s1)
      else (h, s))"

definition redo :: "CommandHistory \<times> heap \<Rightarrow> CommandHistory \<times> heap" where
  "redo hs =
     (let h = fst hs; s = snd hs in
      if redo_stack h \<noteq> []
      then let command = last (redo_stack h);
               h1 = h\<lparr>redo_stack := butlast (redo_stack h)\<rparr>;
               s1 = Command_execute command s
           in (h1\<lparr>history := history h1 @ [command]\<rparr>, s1)
      else (h, s))"

text \<open>A caller's sequence of calls on one history.\<close>

datatype call = ExecuteCommand ref | Undo | Redo

fun apply_call :: "call \<Rightarrow> CommandHistory \<times> heap \<Rightarrow> CommandHistory \<times> heap" where
  "apply_call (ExecuteCommand c) hs = execute_command c hs"
| "apply_call Undo hs = undo hs"
| "apply_call Redo hs = redo hs"

fun run :: "call list \<Rightarrow> CommandHistory \<times> heap \<Rightarrow> CommandHistory \<times> heap" where
  "run [] hs = hs"
| "run (k # ks) hs = run ks (apply_call k hs)"

text \<open>Every \<^verbatim>\<open>execute_command\<close> of the sequence is given a command that is not on the
  undo stack at that moment.\<close>

fun fresh_calls :: "call list \<Rightarrow> CommandHistory \<times> heap \<Rightarrow> bool" where
  "fresh_calls [] hs = True"
| "fresh_calls (ExecuteCommand c # ks) hs =
     (c \<notin> set (history (fst hs)) \<and> fresh_calls ks (execute_command c hs))"
| "fresh_calls (k # ks) hs = fresh_calls ks (apply_call k hs)"

section \<open>Memento: \<^verbatim>\<open>DeviceCaretaker\<close>\<close>

datatype py_error = IndexError

datatype DeviceMemento = DeviceMemento string

fun memento_state :: "DeviceMemento \<Rightarrow> string" where
  "memento_state (DeviceMemento st) = st"

record DeviceCaretaker =
  ct_device :: ref
  saved_states :: "DeviceMemento list"

text \<open>Python's \<^verbatim>\<open>xs[i]\<close>: a negative index counts from the end, an index out of range
  raises \<^verbatim>\<open>IndexError\<close>.\<close>

definition getitem :: "'a list \<Rightarrow> int \<Rightarrow> py_error + 'a" where
  "getitem xs i =
     (if 0 \<le> i \<and> i < int (length xs) then Inr (xs ! nat i)
      else if i < 0 \<and> - int (length xs) \<le> i then Inr (xs ! nat (int (length xs) + i))
      else Inl IndexError)"

text \<open>\<^verbatim>\<open>DeviceCaretaker.save_state\<close>; the memento it returns is the last of the list.\<close>

definition save_state :: "DeviceCaretaker \<Rightarrow> heap \<Rightarrow> DeviceCaretaker \<times> heap" where
  "save_state ct s =
     (let memento = DeviceMemento (state (devices s (ct_device ct)))
      in (ct\<lparr>saved_states := saved_states ct @ [memento]\<rparr>,
          s\<lparr>out := out s @ [Print (''Config saved: '' @ memento_state memento)]\<rparr>))"

text \<open>\<^verbatim>\<open>DeviceCaretaker.restore_state\<close>. \<open>Inl e\<close> is the exception \<open>e\<close>, raised before
  anything has been written; the default argument is \<open>index = -1\<close>.\<close>

definition restore_state :: "DeviceCaretaker \<Rightarrow> int \<Rightarrow> heap \<Rightarrow> py_error + heap" where
  "restore_state ct index s =
     (if saved_states ct \<noteq> []
      then (case getitem (saved_states ct) index of
              Inl e \<Rightarrow> Inl e
            | Inr memento \<Rightarrow>
                (let d = ct_device ct;
                     s1 = s\<lparr>devices := (devices s)(d := (devices s d)\<lparr>state := memento_state memento\<rparr>)\<rparr>
                 in Inr (s1\<lparr>out := out s1 @ [Print (''Config restored -> '' @ memento_state memento)]\<rparr>)))
      else Inr (s\<lparr>out := out s @ [Print ''No saved states to restore'']\<rparr>))"

section \<open>Interpreter: \<^verbatim>\<open>CommandInterpreter\<close>\<close>

text \<open>\<^verbatim>\<open>str.lower\<close> and \<^verbatim>\<open>str.strip\<close> on ASCII text: a character is a byte here, the
  letters \<open>A\<close> to \<open>Z\<close> are lowered, and the white space is the ASCII white space of
  \<^verbatim>\<open>str.isspace\<close> (codes 9 to 13 and 28 to 32).\<close>

definition lower_char :: "char \<Rightarrow> char" where
  "lower_char c =
     (let n = (of_char c :: nat) in if 65 \<le> n \<and> n \<le> 90 then char_of (n + 32) else c)"

definition lower :: "string \<Rightarrow> string" where
  "lower t = map lower_char t"

definition isspace :: "char \<Rightarrow> bool" where
  "isspace c = (let n = (of_char c :: nat) in (9 \<le> n \<and> n \<le> 13) \<or> (28 \<le> n \<and> n \<le> 32))"

definition strip :: "string \<Rightarrow> string" where
  "strip t = rev (dropWhile isspace (rev (dropWhile isspace t)))"

text \<open>\<^verbatim>\<open>CommandInterpreter.interpret\<close>; Python's \<^verbatim>\<open>a in b\<close> on strings is \<open>sublist a b\<close>.\<close>

definition CommandInterpreter_interpret :: "string \<Rightarrow> ref \<Rightarrow> heap \<Rightarrow> string \<times> heap" where
  "CommandInterpreter_interpret command_text d s =
     (let command_text = strip (lower command_text) in
      if sublist ''turn on'' command_text \<or> sublist ''switch on'' command_text
      then (''Turning '' @ name (devices s d) @ '' ON'', set_state d ''ON'' s)
      else if sublist ''turn off'' command_text \<or> sublist ''switch off'' command_text
      then (''Turning '' @ name (devices s d) @ '' OFF'', set_state d ''OFF'' s)
      else if sublist ''toggle'' command_text
      then (let new_state = (if state (devices s d) = ''ON'' then ''OFF'' else ''ON'')
            in (''Toggling '' @ name (devices s d) @ '' to '' @ new_state, set_state d new_state s))
      else (''Command not recognized'', s))"

section \<open>Chain of responsibility: alert handlers\<close>

text \<open>A handler is built with its successor already built (\<^verbatim>\<open>next_handler=None\<close> by
  default), so a chain is a finite value.\<close>

datatype AlertHandler =
    MotionHandler "AlertHandler option"
  | AlarmHandler "AlertHandler option"
  | PoliceHandler "AlertHandler option"

text \<open>\<^verbatim>\<open>handle_alert\<close> of the three classes: the lines printed.\<close>

fun handle_alert :: "AlertHandler \<Rightarrow> string \<Rightarrow> string \<Rightarrow> string list" where
  "handle_alert (MotionHandler next_handler) alert_level message =
     (if alert_level = ''motion'' then [''Motion detected! '' @ message]
      else case next_handler of
             Some nxt \<Rightarrow> handle_alert nxt alert_level message
           | None \<Rightarrow> [])"
| "handle_alert (AlarmHandler next_handler) alert_level message =
     (if alert_level = ''alarm'' then [''Alarm triggered! '' @ message]
      else case next_handler of
             Some nxt \<Rightarrow> handle_alert nxt alert_level message
           | None \<Rightarrow> [])"
| "handle_alert (PoliceHandler next_handler) alert_level message =
     (if alert_level = ''police'' then [''Police notified! '' @ message]
      else case next_handler of
             Some nxt \<Rightarrow> handle_alert nxt alert_level message
           | None \<Rightarrow> [])"

text \<open>What the claims about a chain speak of: a handler's category, its successor, the line
  it prints when it acts, and the handlers of a chain from its head on.\<close>

fun category :: "AlertHandler \<Rightarrow> string" where
  "category (MotionHandler next_handler) = ''motion''"
| "category (AlarmHandler next_handler) = ''alarm''"
| "category (PoliceHandler next_handler) = ''police''"

fun successor :: "AlertHandler \<Rightarrow> AlertHandler option" where
  "successor (MotionHandler next_handler) = next_handler"
| "successor (AlarmHandler next_handler) = next_handler"
| "successor (PoliceHandler next_handler) = next_handler"

fun emits :: "AlertHandler \<Rightarrow> string \<Rightarrow> string" where
  "emits (MotionHandler next_handler) message = ''Motion detected! '' @ message"
| "emits (AlarmHandler next_handler) message = ''Alarm triggered! '' @ message"
| "emits (PoliceHandler next_handler) message = ''Police notified! '' @ message"

fun chain :: "AlertHandler \<Rightarrow> AlertHandler list" where
  "chain (MotionHandler next_handler) =
     MotionHandler next_handler # (case next_handler of Some nxt \<Rightarrow> chain nxt | None \<Rightarrow> [])"
| "chain (AlarmHandler next_handler) =
     AlarmHandler next_handler # (case next_handler of Some nxt \<Rightarrow> chain nxt | None \<Rightarrow> [])"
| "chain (PoliceHandler next_handler) =
     PoliceHandler next_handler # (case next_handler of Some nxt \<Rightarrow> chain nxt | None \<Rightarrow> [])"

section \<open>Concrete objects and invariants used in the statements\<close>

text \<open>The living room light of the script, switched on and watched by the observer \<open>0\<close>;
  command \<open>0\<close> is a \<^verbatim>\<open>TurnOffCommand\<close> on it, every other command a
  \<^verbatim>\<open>TurnOnCommand\<close>, none of them executed yet.\<close>

definition demo_heap :: heap where
  "demo_heap =
     \<lparr>devices = (\<lambda>d. \<lparr>name = ''Living Room Light'', state = ''ON'', observers = [0]\<rparr>),
      commands = (\<lambda>c. \<lparr>cls = (if c = 0 then TurnOffCommand else TurnOnCommand),
                          device = 0, previous_state = None\<rparr>),
      out = []\<rparr>"

text \<open>No command object occurs twice in the two stacks taken together.\<close>

definition stacks_distinct :: "CommandHistory \<Rightarrow> bool" where
  "stacks_distinct h = distinct (history h @ redo_stack h)"

text \<open>A caretaker of that light holding two saved configurations.\<close>

definition demo_caretaker :: DeviceCaretaker where
  "demo_caretaker = \<lparr>ct_device = 0, saved_states = [DeviceMemento ''ON'', DeviceMemento ''OFF'']\<rparr>"

section \<open>Basic facts on \<^verbatim>\<open>set_state\<close> and the commands\<close>

lemma notify_map: "notify obs msg = map (\<lambda>ob. Update ob msg) obs"
  by (induction obs) simp_all

lemma set_state_state: "state (devices (set_state d st s) d) = st"
  by (simp add: set_state_def Let_def)

lemma set_state_commands: "commands (set_state d st s) = commands s"
  by (simp add: set_state_def Let_def)

lemma Command_execute_state:
  "state (devices (Command_execute c s) (device (commands s c))) = target (cls (commands s c))"
  by (simp add: Command_execute_def Let_def set_state_state)

lemma Command_execute_previous_state:
  "previous_state (commands (Command_execute c s) c) = Some (state (devices s (device (commands s c))))"
  by (simp add: Command_execute_def Let_def set_state_commands)

lemma Command_execute_device:
  "device (commands (Command_execute c s) k) = device (commands s k)"
  by (simp add: Command_execute_def Let_def set_state_commands)

lemma Command_execute_cls:
  "cls (commands (Command_execute c s) k) = cls (commands s k)"
  by (simp add: Command_execute_def Let_def set_state_commands)

lemma Command_undo_commands: "commands (Command_undo c s) = commands s"
  by (simp add: Command_undo_def Let_def set_state_commands split: option.splits)

section \<open>Devices and their observers\<close>

text \<open>
  Claim C10. A device as \<^verbatim>\<open>Device.__init__\<close> builds it has the status \<^verbatim>\<open>"OFF"\<close> and no
  observer; a \<^verbatim>\<open>set_state("OFF")\<close> made right after the construction leaves the whole
  store as it was, so the output gets no event and nobody is notified.
\<close>

theorem fresh_device_off_no_observers:
  "state (Device_init n) = ''OFF'' \<and> observers (Device_init n) = [] \<and>
   devices (new_Device d n s) d = Device_init n \<and>
   set_state d ''OFF'' (new_Device d n s) = new_Device d n s"
  by (simp add: Device_init_def new_Device_def set_state_def Let_def)

theorem fresh_device_off_no_observers_witness:
  "out (set_state 7 ''OFF'' (new_Device 7 ''Fan'' demo_heap)) = out (new_Device 7 ''Fan'' demo_heap) \<and>
   state (devices (new_Device 7 ''Fan'' demo_heap) 7) = ''OFF'' \<and>
   observers (devices (new_Device 7 ''Fan'' demo_heap) 7) = []"
  using fresh_device_off_no_observers [of "''Fan''" 7 demo_heap]
  by simp

text \<open>The events of the notification loop: one \<open>Update\<close> per entry of the observer list,
  in the order of the list.\<close>

lemma count_list_notify:
  "count_list (notify obs msg) (Update ob msg) = count_list obs ob"
  by (induction obs) simp_all

lemma count_list_distinct: "distinct xs \<Longrightarrow> x \<in> set xs \<Longrightarrow> count_list xs x = 1"
  by (induction xs) (auto simp: count_list_0_iff)

lemma set_state_out:
  "out (set_state d st s) =
     (if state (devices s d) \<noteq> st
      then out s @ notify (observers (devices s d)) (name (devices s d) @ '' -> '' @ st)
      else out s)"
  by (simp add: set_state_def Let_def)

lemma sublist_left: "sublist xs (xs @ ys)"
  unfolding sublist_def by (rule exI [of _ "[]"], rule exI [of _ ys]) simp

lemma sublist_right: "sublist ys (xs @ ys)"
  unfolding sublist_def by (rule exI [of _ xs], rule exI [of _ "[]"]) simp

text \<open>An observer list that starts empty and changes through \<^verbatim>\<open>add_observer\<close> and
  \<^verbatim>\<open>remove_observer\<close> only never holds an observer twice.\<close>

lemma add_observer_distinct:
  "distinct (observers (devices s k)) \<Longrightarrow> distinct (observers (devices (add_observer d ob s) k))"
  by (auto simp: add_observer_def Let_def)

lemma remove_observer_distinct:
  "distinct (observers (devices s k)) \<Longrightarrow> distinct (observers (devices (remove_observer d ob s) k))"
  by (auto simp: remove_observer_def Let_def)

text \<open>
  Claim C6. \<^verbatim>\<open>set_state\<close> always writes the new status. When it differs from the old one,
  the output grows by exactly one \<open>Update\<close> event per registered observer, in
  registration order, each carrying the message \<^verbatim>\<open>name -> status\<close>, which contains the
  device's name and the new status; with an observer list free of duplicates every
  registered observer is called exactly once. When the new status equals the old one, the
  output is unchanged: no observer is called.
\<close>

theorem set_state_notifies_on_change:
  "state (devices (set_state d st s) d) = st \<and>
   (state (devices s d) \<noteq> st \<longrightarrow>
      out (set_state d st s) =
        out s @ map (\<lambda>ob. Update ob (name (devices s d) @ '' -> '' @ st)) (observers (devices s d)) \<and>
      sublist (name (devices s d)) (name (devices s d) @ '' -> '' @ st) \<and>
      sublist st (name (devices s d) @ '' -> '' @ st) \<and>
      (distinct (observers (devices s d)) \<longrightarrow>
         (\<forall>ob \<in> set (observers (devices s d)).
            count_list (drop (length (out s)) (out (set_state d st s)))
                       (Update ob (name (devices s d) @ '' -> '' @ st)) = 1))) \<and>
   (state (devices s d) = st \<longrightarrow> out (set_state d st s) = out s)"
proof -
  let ?msg = "name (devices s d) @ '' -> '' @ st"
  let ?obs = "observers (devices s d)"
  have a: "sublist (name (devices s d)) ?msg"
    by (rule sublist_left)
  have b: "sublist st ?msg"
    using sublist_right [of st "name (devices s d) @ '' -> ''"] by simp
  have c: "state (devices s d) \<noteq> st \<Longrightarrow> out (set_state d st s) = out s @ notify ?obs ?msg"
    by (simp add: set_state_out)
  have e: "state (devices s d) = st \<Longrightarrow> out (set_state d st s) = out s"
    by (simp add: set_state_out)
  have f: "distinct ?obs \<Longrightarrow> \<forall>ob \<in> set ?obs. count_list (notify ?obs ?msg) (Update ob ?msg) = 1"
    by (simp add: count_list_notify count_list_distinct)
  have g: "state (devices (set_state d st s) d) = st"
    by (rule set_state_state)
  from c f have h: "state (devices s d) \<noteq> st \<Longrightarrow> distinct ?obs \<Longrightarrow>
      \<forall>ob \<in> set ?obs. count_list (drop (length (out s)) (out (set_state d st s))) (Update ob ?msg) = 1"
    by simp
  from c have c': "state (devices s d) \<noteq> st \<Longrightarrow>
      out (set_state d st s) = out s @ map (\<lambda>ob. Update ob ?msg) ?obs"
    by (simp add: notify_map)
  from a b c' e g h show ?thesis by blast
qed

theorem set_state_notifies_on_change_witness:
  "state (devices demo_heap 0) \<noteq> ''OFF'' \<and> distinct (observers (devices demo_heap 0)) \<and>
   out (set_state 0 ''OFF'' demo_heap) = [Update 0 ''Living Room Light -> OFF''] \<and>
   count_list (out (set_state 0 ''OFF'' demo_heap)) (Update 0 ''Living Room Light -> OFF'') = 1 \<and>
   state (devices demo_heap 0) = ''ON'' \<and> out (set_state 0 ''ON'' demo_heap) = []"
proof -
  have a: "state (devices demo_heap 0) = ''ON''" "observers (devices demo_heap 0) = [0]"
    "name (devices demo_heap 0) = ''Living Room Light''" "out demo_heap = []"
    by (simp_all add: demo_heap_def)
  from set_state_notifies_on_change [of 0 "''OFF''" demo_heap]
       set_state_notifies_on_change [of 0 "''ON''" demo_heap] a
  show ?thesis by simp
qed

section \<open>The command history\<close>

text \<open>An execute followed by an undo brings the device back to the status it had before the
  execute, as long as that status is not the empty string.\<close>

lemma undo_restores_nonempty_status:
  assumes "state (devices s (device (commands s c))) \<noteq> []"
  shows "state (devices (snd (undo (execute_command c (h, s)))) (device (commands s c)))
           = state (devices s (device (commands s c)))"
proof -
  let ?s1 = "Command_execute c s"
  have u: "snd (undo (execute_command c (h, s))) = Command_undo c ?s1"
    by (simp add: undo_def execute_command_def Let_def)
  have p: "previous_state (commands ?s1 c) = Some (state (devices s (device (commands s c))))"
    by (rule Command_execute_previous_state)
  have d: "device (commands ?s1 c) = device (commands s c)"
    by (rule Command_execute_device)
  from assms p d have "Command_undo c ?s1 = set_state (device (commands s c)) (state (devices s (device (commands s c)))) ?s1"
    by (simp add: Command_undo_def Let_def)
  then show ?thesis
    by (simp add: u set_state_state)
qed

text \<open>
  Claim C1 at a device whose status is the empty string. \<^verbatim>\<open>TurnOnCommand.execute\<close>
  captures \<^verbatim>\<open>previous_state = ""\<close> and switches the device to \<^verbatim>\<open>"ON"\<close>; the guard
  \<^verbatim>\<open>if self.previous_state:\<close> of \<^verbatim>\<open>undo\<close> then takes the captured empty string for
  "never executed", and the device stays \<^verbatim>\<open>"ON"\<close> instead of going back to \<^verbatim>\<open>""\<close>.
\<close>

theorem undo_skips_empty_prior_status:
  "state (devices (set_state 0 [] demo_heap) 0) = [] \<and>
   state (devices (snd (execute_command 1 (CommandHistory_init, set_state 0 [] demo_heap))) 0) = ''ON'' \<and>
   state (devices (snd (undo (execute_command 1 (CommandHistory_init, set_state 0 [] demo_heap)))) 0) = ''ON''"
  by (simp add: demo_heap_def CommandHistory_init_def execute_command_def undo_def
      Command_execute_def Command_undo_def set_state_def Let_def)


text \<open>
  Claim C2. For every history, store and command, \<^verbatim>\<open>execute_command\<close> runs the command's
  \<^verbatim>\<open>execute\<close> on the store (so the command's device ends in the status of the command's
  class, and the status it had before is captured in \<open>previous_state\<close>), appends the
  command at the end of the undo stack, and leaves the redo stack empty.
\<close>

theorem execute_command_pushes_and_clears:
  "snd (execute_command c (h, s)) = Command_execute c s \<and>
   state (devices (snd (execute_command c (h, s))) (device (commands s c))) = target (cls (commands s c)) \<and>
   previous_state (commands (snd (execute_command c (h, s))) c) =
     Some (state (devices s (device (commands s c)))) \<and>
   history (fst (execute_command c (h, s))) = history h @ [c] \<and>
   redo_stack (fst (execute_command c (h, s))) = []"
  by (simp add: execute_command_def Let_def Command_execute_state Command_execute_previous_state)

theorem execute_command_pushes_and_clears_witness:
  "state (devices (snd (execute_command 0 (\<lparr>history = [1], redo_stack = [2, 3]\<rparr>, demo_heap))) 0) = ''OFF'' \<and>
   previous_state (commands (snd (execute_command 0 (\<lparr>history = [1], redo_stack = [2, 3]\<rparr>, demo_heap))) 0) = Some ''ON'' \<and>
   history (fst (execute_command 0 (\<lparr>history = [1], redo_stack = [2, 3]\<rparr>, demo_heap))) = [1, 0] \<and>
   redo_stack (fst (execute_command 0 (\<lparr>history = [1], redo_stack = [2, 3]\<rparr>, demo_heap))) = []"
proof -
  have "device (commands demo_heap 0) = 0"
    and "cls (commands demo_heap 0) = TurnOffCommand"
    and "state (devices demo_heap 0) = ''ON''"
    by (simp_all add: demo_heap_def)
  with execute_command_pushes_and_clears
         [of 0 "\<lparr>history = [1], redo_stack = [2, 3]\<rparr>" demo_heap, THEN conjunct2]
  show ?thesis by simp
qed

text \<open>No call on the history changes the device or the class of a command.\<close>

lemma apply_call_device:
  "device (commands (snd (apply_call k hs)) c) = device (commands (snd hs) c)"
  by (cases k) (simp_all add: execute_command_def undo_def redo_def Let_def
      Command_execute_device Command_undo_commands)

lemma apply_call_cls:
  "cls (commands (snd (apply_call k hs)) c) = cls (commands (snd hs) c)"
  by (cases k) (simp_all add: execute_command_def undo_def redo_def Let_def
      Command_execute_cls Command_undo_commands)

lemma run_device: "device (commands (snd (run ks hs)) c) = device (commands (snd hs) c)"
  by (induction ks arbitrary: hs) (simp_all add: apply_call_device)

lemma run_cls: "cls (commands (snd (run ks hs)) c) = cls (commands (snd hs) c)"
  by (induction ks arbitrary: hs) (simp_all add: apply_call_cls)

text \<open>
  Claim C3. A command is executed through the history and undone. Then it is the one entry
  that \<^verbatim>\<open>undo\<close> put on the redo stack, and a following \<^verbatim>\<open>redo\<close> brings the command's
  device back to the status it had right after the first execute, takes the command off the
  redo stack and puts it back at the end of the undo stack. On an empty redo stack
  \<^verbatim>\<open>redo\<close> changes nothing. On every non-empty redo stack, however many undone commands
  wait there, \<^verbatim>\<open>redo\<close> takes the last entry (the command undone most recently) and no
  other, runs its \<^verbatim>\<open>execute\<close> on the store, which puts its device at the status of its
  class, and appends it to the undo stack. So on every history with a non-empty undo
  stack, whatever its redo stack holds, an \<^verbatim>\<open>undo\<close> followed by a \<^verbatim>\<open>redo\<close> gives back
  both stacks as they were and re-executes the very command that was undone.
\<close>

theorem redo_after_undo:
  "state (devices (snd (redo (undo (execute_command c (h, s))))) (device (commands s c)))
     = state (devices (snd (execute_command c (h, s))) (device (commands s c))) \<and>
   redo_stack (fst (undo (execute_command c (h, s)))) = [c] \<and>
   redo_stack (fst (redo (undo (execute_command c (h, s))))) = [] \<and>
   history (fst (redo (undo (execute_command c (h, s))))) = history h @ [c] \<and>
   (redo_stack h = [] \<longrightarrow> redo (h, s) = (h, s)) \<and>
   (redo_stack h \<noteq> [] \<longrightarrow>
      redo (h, s) =
        (\<lparr>history = history h @ [last (redo_stack h)], redo_stack = butlast (redo_stack h)\<rparr>,
         Command_execute (last (redo_stack h)) s) \<and>
      state (devices (snd (redo (h, s))) (device (commands s (last (redo_stack h)))))
        = target (cls (commands s (last (redo_stack h))))) \<and>
   (history h \<noteq> [] \<longrightarrow>
      fst (redo (undo (h, s))) = h \<and>
      snd (redo (undo (h, s))) = Command_execute (last (history h)) (Command_undo (last (history h)) s) \<and>
      state (devices (snd (redo (undo (h, s)))) (device (commands s (last (history h)))))
        = target (cls (commands s (last (history h)))))"
proof -
  let ?s1 = "Command_execute c s"
  let ?s2 = "Command_undo c ?s1"
  have u: "undo (execute_command c (h, s)) = (\<lparr>history = history h, redo_stack = [c]\<rparr>, ?s2)"
    by (simp add: undo_def execute_command_def Let_def)
  have r: "redo (\<lparr>history = history h, redo_stack = [c]\<rparr>, ?s2) =
             (\<lparr>history = history h @ [c], redo_stack = []\<rparr>, Command_execute c ?s2)"
    by (simp add: redo_def Let_def)
  have k: "commands ?s2 c = commands ?s1 c"
    by (simp add: Command_undo_commands)
  have "state (devices (Command_execute c ?s2) (device (commands ?s2 c))) = target (cls (commands ?s2 c))"
    by (rule Command_execute_state)
  then have "state (devices (Command_execute c ?s2) (device (commands s c))) = target (cls (commands s c))"
    by (simp add: k Command_execute_device Command_execute_cls)
  moreover have "state (devices (snd (execute_command c (h, s))) (device (commands s c))) = target (cls (commands s c))"
    by (simp add: execute_command_def Let_def Command_execute_state)
  ultimately have seq:
    "state (devices (snd (redo (undo (execute_command c (h, s))))) (device (commands s c)))
       = state (devices (snd (execute_command c (h, s))) (device (commands s c))) \<and>
     redo_stack (fst (undo (execute_command c (h, s)))) = [c] \<and>
     redo_stack (fst (redo (undo (execute_command c (h, s))))) = [] \<and>
     history (fst (redo (undo (execute_command c (h, s))))) = history h @ [c]"
    by (simp add: u r)
  have emp: "redo_stack h = [] \<longrightarrow> redo (h, s) = (h, s)"
    by (simp add: redo_def)
  have pop: "redo_stack h \<noteq> [] \<longrightarrow>
      redo (h, s) =
        (\<lparr>history = history h @ [last (redo_stack h)], redo_stack = butlast (redo_stack h)\<rparr>,
         Command_execute (last (redo_stack h)) s) \<and>
      state (devices (snd (redo (h, s))) (device (commands s (last (redo_stack h)))))
        = target (cls (commands s (last (redo_stack h))))"
    by (simp add: redo_def Let_def Command_execute_state)
  have bck: "history h \<noteq> [] \<longrightarrow>
      fst (redo (undo (h, s))) = h \<and>
      snd (redo (undo (h, s))) = Command_execute (last (history h)) (Command_undo (last (history h)) s) \<and>
      state (devices (snd (redo (undo (h, s)))) (device (commands s (last (history h)))))
        = target (cls (commands s (last (history h))))"
  proof
    assume ne: "history h \<noteq> []"
    let ?c = "last (history h)"
    let ?t = "Command_undo ?c s"
    from ne have a: "fst (redo (undo (h, s))) = h"
      by (simp add: undo_def redo_def Let_def)
    from ne have b: "snd (redo (undo (h, s))) = Command_execute ?c ?t"
      by (simp add: undo_def redo_def Let_def)
    have "state (devices (Command_execute ?c ?t) (device (commands ?t ?c))) = target (cls (commands ?t ?c))"
      by (rule Command_execute_state)
    then have "state (devices (Command_execute ?c ?t) (device (commands s ?c))) = target (cls (commands s ?c))"
      by (simp add: Command_undo_commands)
    with a b show "fst (redo (undo (h, s))) = h \<and>
      snd (redo (undo (h, s))) = Command_execute ?c ?t \<and>
      state (devices (snd (redo (undo (h, s)))) (device (commands s ?c))) = target (cls (commands s ?c))"
      by simp
  qed
  from seq emp pop bck show ?thesis by blast
qed

theorem redo_after_undo_witness:
  "state (devices (snd (execute_command 0 (CommandHistory_init, demo_heap))) 0) = ''OFF'' \<and>
   state (devices (snd (undo (execute_command 0 (CommandHistory_init, demo_heap)))) 0) = ''ON'' \<and>
   state (devices (snd (redo (undo (execute_command 0 (CommandHistory_init, demo_heap))))) 0) = ''OFF'' \<and>
   history (fst (redo (undo (execute_command 0 (CommandHistory_init, demo_heap))))) = [0] \<and>
   redo_stack (fst (redo (undo (execute_command 0 (CommandHistory_init, demo_heap))))) = [] \<and>
   redo_stack CommandHistory_init = [] \<and>
   redo (CommandHistory_init, demo_heap) = (CommandHistory_init, demo_heap) \<and>
   fst (run [ExecuteCommand 0, ExecuteCommand 1, Undo, Undo] (CommandHistory_init, demo_heap))
     = \<lparr>history = [], redo_stack = [1, 0]\<rparr> \<and>
   fst (redo (run [ExecuteCommand 0, ExecuteCommand 1, Undo, Undo] (CommandHistory_init, demo_heap)))
     = \<lparr>history = [0], redo_stack = [1]\<rparr> \<and>
   state (devices (snd (redo (run [ExecuteCommand 0, ExecuteCommand 1, Undo, Undo]
                                 (CommandHistory_init, demo_heap)))) 0) = ''OFF'' \<and>
   fst (run [ExecuteCommand 0, ExecuteCommand 1, Undo] (CommandHistory_init, demo_heap))
     = \<lparr>history = [0], redo_stack = [1]\<rparr> \<and>
   fst (redo (undo (run [ExecuteCommand 0, ExecuteCommand 1, Undo] (CommandHistory_init, demo_heap))))
     = \<lparr>history = [0], redo_stack = [1]\<rparr> \<and>
   state (devices (snd (redo (undo (run [ExecuteCommand 0, ExecuteCommand 1, Undo]
                                       (CommandHistory_init, demo_heap))))) 0) = ''OFF''"
proof -
  let ?w = "run [ExecuteCommand 0, ExecuteCommand 1, Undo, Undo] (CommandHistory_init, demo_heap)"
  let ?v = "run [ExecuteCommand 0, ExecuteCommand 1, Undo] (CommandHistory_init, demo_heap)"
  have e: "state (devices (snd (execute_command 0 (CommandHistory_init, demo_heap))) 0) = ''OFF''"
    by (simp add: demo_heap_def execute_command_def Command_execute_def set_state_def Let_def)
  have u: "state (devices (snd (undo (execute_command 0 (CommandHistory_init, demo_heap)))) 0) = ''ON''"
    by (simp add: demo_heap_def CommandHistory_init_def execute_command_def undo_def
        Command_execute_def Command_undo_def set_state_def Let_def)
  have d: "device (commands demo_heap 0) = 0" "cls (commands demo_heap 0) = TurnOffCommand"
    by (simp_all add: demo_heap_def)
  have n: "redo_stack CommandHistory_init = []"
    by (simp add: CommandHistory_init_def)
  have w: "fst ?w = \<lparr>history = [], redo_stack = [1, 0]\<rparr>"
    by (simp add: CommandHistory_init_def execute_command_def undo_def Let_def)
  have v: "fst ?v = \<lparr>history = [0], redo_stack = [1]\<rparr>"
    by (simp add: CommandHistory_init_def execute_command_def undo_def Let_def)
  have dw: "device (commands (snd ?w) 0) = 0" "cls (commands (snd ?w) 0) = TurnOffCommand"
    by (simp_all only: run_device run_cls snd_conv d)
  have dv: "device (commands (snd ?v) 0) = 0" "cls (commands (snd ?v) 0) = TurnOffCommand"
    by (simp_all only: run_device run_cls snd_conv d)
  have pw: "?w = (fst ?w, snd ?w)" and pv: "?v = (fst ?v, snd ?v)"
    by simp_all
  have rw: "fst (redo ?w) = \<lparr>history = [0], redo_stack = [1]\<rparr> \<and>
            state (devices (snd (redo ?w)) 0) = ''OFF''"
    using redo_after_undo [of 0 "fst ?w" "snd ?w", THEN conjunct2, THEN conjunct2, THEN conjunct2,
            THEN conjunct2, THEN conjunct2, THEN conjunct1]
          Command_execute_state [of 0 "snd ?w"] w dw
    by (simp del: run.simps)
  have rv: "fst (redo (undo ?v)) = \<lparr>history = [0], redo_stack = [1]\<rparr> \<and>
            state (devices (snd (redo (undo ?v))) 0) = ''OFF''"
    using redo_after_undo [of 0 "fst ?v" "snd ?v", THEN conjunct2, THEN conjunct2, THEN conjunct2,
            THEN conjunct2, THEN conjunct2, THEN conjunct2]
          Command_execute_state [of 0 "Command_undo 0 (snd ?v)"] v dv
    by (simp del: run.simps add: Command_undo_commands)
  from redo_after_undo [of 0 CommandHistory_init demo_heap] e u d n
  have first: "state (devices (snd (redo (undo (execute_command 0 (CommandHistory_init, demo_heap))))) 0) = ''OFF'' \<and>
   history (fst (redo (undo (execute_command 0 (CommandHistory_init, demo_heap))))) = [0] \<and>
   redo_stack (fst (redo (undo (execute_command 0 (CommandHistory_init, demo_heap))))) = [] \<and>
   redo (CommandHistory_init, demo_heap) = (CommandHistory_init, demo_heap)"
    by (simp add: CommandHistory_init_def)
  from first e u n w v rw rv show ?thesis by blast
qed

text \<open>
  Claim C5, as the code has it. When the undo stack is empty, \<^verbatim>\<open>undo\<close> returns the history
  and the whole store as they were: both stacks, every device, every command and the
  output are unchanged, so nothing is raised and nothing is reported either.
\<close>

theorem undo_empty_is_silent: "history h = [] \<Longrightarrow> undo (h, s) = (h, s)"
  by (simp add: undo_def)

theorem undo_empty_is_silent_witness:
  "history \<lparr>history = [], redo_stack = [1]\<rparr> = [] \<and>
   undo (\<lparr>history = [], redo_stack = [1]\<rparr>, demo_heap) = (\<lparr>history = [], redo_stack = [1]\<rparr>, demo_heap)"
  using undo_empty_is_silent [of "\<lparr>history = [], redo_stack = [1]\<rparr>" demo_heap]
  by simp

text \<open>
  The claim as stated asks for a "nothing to undo" message: \<^verbatim>\<open>undo\<close> on the empty stack
  would have to add an event to the output. On the empty history and the store of the
  script it adds none.
\<close>

theorem undo_empty_reports_counterexample:
  "\<not> (out (snd (undo (CommandHistory_init, demo_heap))) \<noteq> out demo_heap)"
  by (simp add: undo_def CommandHistory_init_def)

text \<open>The invariant of the two stacks is kept by \<^verbatim>\<open>undo\<close> and \<^verbatim>\<open>redo\<close>, and by
  \<^verbatim>\<open>execute_command\<close> on a command that is not on the undo stack.\<close>

lemma distinct_butlast_last:
  "xs \<noteq> [] \<Longrightarrow> distinct (xs @ ys) \<Longrightarrow> distinct (butlast xs @ ys @ [last xs])"
  by (induction xs rule: rev_induct) auto

lemma execute_command_distinct:
  "stacks_distinct (fst hs) \<Longrightarrow> c \<notin> set (history (fst hs)) \<Longrightarrow>
   stacks_distinct (fst (execute_command c hs))"
  by (simp add: stacks_distinct_def execute_command_def Let_def)

lemma undo_distinct:
  "stacks_distinct (fst hs) \<Longrightarrow> stacks_distinct (fst (undo hs))"
  using distinct_butlast_last [of "history (fst hs)" "redo_stack (fst hs)"]
  by (simp add: stacks_distinct_def undo_def Let_def)

lemma redo_distinct:
  assumes "stacks_distinct (fst hs)"
  shows "stacks_distinct (fst (redo hs))"
proof (cases "redo_stack (fst hs)" rule: rev_cases)
  case Nil
  with assms show ?thesis by (simp add: redo_def)
next
  case (snoc ys y)
  with assms show ?thesis by (auto simp: stacks_distinct_def redo_def Let_def)
qed

lemma fresh_calls_tail: "fresh_calls (k # ks) hs \<Longrightarrow> fresh_calls ks (apply_call k hs)"
  by (cases k) simp_all

lemma apply_call_distinct:
  assumes "stacks_distinct (fst hs)" and "fresh_calls (k # ks) hs"
  shows "stacks_distinct (fst (apply_call k hs))"
proof (cases k)
  case (ExecuteCommand c)
  with assms show ?thesis by (simp add: execute_command_distinct)
next
  case Undo
  with assms show ?thesis by (simp add: undo_distinct)
next
  case Redo
  with assms show ?thesis by (simp add: redo_distinct)
qed

lemma run_distinct:
  "stacks_distinct (fst hs) \<Longrightarrow> fresh_calls ks hs \<Longrightarrow> stacks_distinct (fst (run ks hs))"
proof (induction ks arbitrary: hs)
  case Nil
  then show ?case by simp
next
  case (Cons k ks)
  from Cons.prems have "stacks_distinct (fst (apply_call k hs))"
    by (rule apply_call_distinct)
  moreover from Cons.prems(2) have "fresh_calls ks (apply_call k hs)"
    by (rule fresh_calls_tail)
  ultimately have "stacks_distinct (fst (run ks (apply_call k hs)))"
    by (rule Cons.IH)
  then show ?case by simp
qed

text \<open>
  Claim C4, as the code has it. Start from the empty history and make any sequence of
  \<^verbatim>\<open>execute_command\<close>, \<^verbatim>\<open>undo\<close> and \<^verbatim>\<open>redo\<close> calls in which every
  \<^verbatim>\<open>execute_command\<close> is given a command that is not on the undo stack at that moment.
  Then the undo stack and the redo stack are disjoint and no command object occurs twice
  in the two stacks together.
\<close>

theorem stacks_disjoint_when_fresh:
  "fresh_calls ks (CommandHistory_init, s) \<Longrightarrow>
   set (history (fst (run ks (CommandHistory_init, s)))) \<inter>
     set (redo_stack (fst (run ks (CommandHistory_init, s)))) = {} \<and>
   distinct (history (fst (run ks (CommandHistory_init, s))) @
             redo_stack (fst (run ks (CommandHistory_init, s))))"
  using run_distinct [of "(CommandHistory_init, s)" ks]
  by (simp add: stacks_distinct_def CommandHistory_init_def)

theorem stacks_disjoint_when_fresh_witness:
  "fresh_calls [ExecuteCommand 0, ExecuteCommand 1, Undo, Undo, Redo] (CommandHistory_init, demo_heap) \<and>
   history (fst (run [ExecuteCommand 0, ExecuteCommand 1, Undo, Undo, Redo] (CommandHistory_init, demo_heap))) = [0] \<and>
   redo_stack (fst (run [ExecuteCommand 0, ExecuteCommand 1, Undo, Undo, Redo] (CommandHistory_init, demo_heap))) = [1] \<and>
   distinct (history (fst (run [ExecuteCommand 0, ExecuteCommand 1, Undo, Undo, Redo] (CommandHistory_init, demo_heap))) @
             redo_stack (fst (run [ExecuteCommand 0, ExecuteCommand 1, Undo, Undo, Redo] (CommandHistory_init, demo_heap))))"
proof -
  have f: "fresh_calls [ExecuteCommand 0, ExecuteCommand 1, Undo, Undo, Redo] (CommandHistory_init, demo_heap)"
    by (simp add: CommandHistory_init_def execute_command_def undo_def redo_def Let_def)
  have "history (fst (run [ExecuteCommand 0, ExecuteCommand 1, Undo, Undo, Redo] (CommandHistory_init, demo_heap))) = [0]"
    and "redo_stack (fst (run [ExecuteCommand 0, ExecuteCommand 1, Undo, Undo, Redo] (CommandHistory_init, demo_heap))) = [1]"
    by (simp_all add: CommandHistory_init_def execute_command_def undo_def redo_def Let_def)
  with f stacks_disjoint_when_fresh [OF f] show ?thesis by simp
qed

text \<open>
  The claim as stated puts no condition on the calls. The same command object executed
  twice is twice on the undo stack, and one \<^verbatim>\<open>undo\<close> later it is on both stacks.
\<close>

theorem stacks_disjoint_counterexample:
  "\<not> (set (history (fst (run [ExecuteCommand 0, ExecuteCommand 0, Undo] (CommandHistory_init, demo_heap)))) \<inter>
        set (redo_stack (fst (run [ExecuteCommand 0, ExecuteCommand 0, Undo] (CommandHistory_init, demo_heap)))) = {} \<and>
      distinct (history (fst (run [ExecuteCommand 0, ExecuteCommand 0, Undo] (CommandHistory_init, demo_heap))) @
                redo_stack (fst (run [ExecuteCommand 0, ExecuteCommand 0, Undo] (CommandHistory_init, demo_heap)))))"
  by (simp add: CommandHistory_init_def execute_command_def undo_def Let_def)

section \<open>The caretaker\<close>

lemma getitem_last: "xs \<noteq> [] \<Longrightarrow> getitem xs (- 1) = Inr (last xs)"
proof -
  assume ne: "xs \<noteq> []"
  then have l: "Suc 0 \<le> length xs"
    by (cases xs) simp_all
  then have "nat (int (length xs) + (- 1)) = length xs - 1" by simp
  with ne l show ?thesis
    by (simp add: getitem_def last_conv_nth)
qed

text \<open>
  Claim C8. With a non-empty list of saved states, \<^verbatim>\<open>restore_state\<close> either raises
  \<^verbatim>\<open>IndexError\<close> (the index is out of range; nothing has been written) or returns the
  store in which the saved status has been assigned to the device's \<open>state\<close> field and
  one \<^verbatim>\<open>Config restored\<close> line has been printed: the \<open>Update\<close> events of the output are
  those of before, whatever the status of the device was. The call with the default index
  always returns, and restores the last saved status.
\<close>

theorem restore_state_bypasses_observers:
  "saved_states ct \<noteq> [] \<Longrightarrow>
   (case restore_state ct index s of
      Inl e \<Rightarrow> getitem (saved_states ct) index = Inl e
    | Inr s' \<Rightarrow>
        (\<exists>m. getitem (saved_states ct) index = Inr m \<and>
              s' = s\<lparr>devices := (devices s)(ct_device ct := (devices s (ct_device ct))\<lparr>state := memento_state m\<rparr>),
                      out := out s @ [Print (''Config restored -> '' @ memento_state m)]\<rparr>) \<and>
        filter is_Update (out s') = filter is_Update (out s)) \<and>
   (\<exists>s'. restore_state ct (- 1) s = Inr s' \<and>
         state (devices s' (ct_device ct)) = memento_state (last (saved_states ct)) \<and>
         filter is_Update (out s') = filter is_Update (out s))"
proof -
  assume ne: "saved_states ct \<noteq> []"
  have 1: "case restore_state ct index s of
      Inl e \<Rightarrow> getitem (saved_states ct) index = Inl e
    | Inr s' \<Rightarrow>
        (\<exists>m. getitem (saved_states ct) index = Inr m \<and>
              s' = s\<lparr>devices := (devices s)(ct_device ct := (devices s (ct_device ct))\<lparr>state := memento_state m\<rparr>),
                      out := out s @ [Print (''Config restored -> '' @ memento_state m)]\<rparr>) \<and>
        filter is_Update (out s') = filter is_Update (out s)"
    using ne by (cases "getitem (saved_states ct) index") (simp_all add: restore_state_def Let_def)
  have 2: "\<exists>s'. restore_state ct (- 1) s = Inr s' \<and>
         state (devices s' (ct_device ct)) = memento_state (last (saved_states ct)) \<and>
         filter is_Update (out s') = filter is_Update (out s)"
    using ne by (simp add: restore_state_def Let_def getitem_last)
  from 1 2 show ?thesis by simp
qed

theorem restore_state_bypasses_observers_witness:
  "saved_states demo_caretaker \<noteq> [] \<and>
   state (devices demo_heap 0) = ''ON'' \<and>
   observers (devices demo_heap 0) = [0] \<and>
   (\<exists>s'. restore_state demo_caretaker (- 1) demo_heap = Inr s' \<and>
         state (devices s' 0) = ''OFF'' \<and> filter is_Update (out s') = [])"
proof -
  have ne: "saved_states demo_caretaker \<noteq> []"
    by (simp add: demo_caretaker_def)
  have a: "ct_device demo_caretaker = 0" "last (saved_states demo_caretaker) = DeviceMemento ''OFF''"
    by (simp_all add: demo_caretaker_def)
  have b: "state (devices demo_heap 0) = ''ON''" "observers (devices demo_heap 0) = [0]" "out demo_heap = []"
    by (simp_all add: demo_heap_def)
  from restore_state_bypasses_observers [OF ne, of "- 1" demo_heap, THEN conjunct2] ne a b
  show ?thesis by simp
qed

section \<open>The interpreter\<close>

text \<open>Stripping white space at both ends does not change whether a keyword occurs: every
  keyword starts and ends with a letter.\<close>

lemma sublist_dropWhile:
  assumes "k \<noteq> []" and "\<not> P (hd k)"
  shows "sublist k (dropWhile P t) = sublist k t"
proof (induction t)
  case Nil
  show ?case by simp
next
  case (Cons x xs)
  show ?case
  proof (cases "P x")
    case True
    with assms have "\<not> prefix k (x # xs)"
      by (cases k) auto
    with True Cons show ?thesis
      by (simp add: sublist_Cons_right)
  next
    case False
    then show ?thesis by simp
  qed
qed

lemma sublist_strip:
  assumes "k \<noteq> []" and "\<not> isspace (hd k)" and "\<not> isspace (last k)"
  shows "sublist k (strip t) = sublist k t"
proof -
  have "sublist k (strip t) = sublist (rev k) (dropWhile isspace (rev (dropWhile isspace t)))"
    using sublist_rev [of "rev k" "dropWhile isspace (rev (dropWhile isspace t))"]
    by (simp add: strip_def)
  also have "\<dots> = sublist (rev k) (rev (dropWhile isspace t))"
    using assms by (intro sublist_dropWhile) (simp_all add: hd_rev)
  also have "\<dots> = sublist k (dropWhile isspace t)"
    by simp
  also have "\<dots> = sublist k t"
    using assms by (intro sublist_dropWhile)
  finally show ?thesis .
qed

lemma keyword_strip:
  "sublist ''turn on'' (strip t) = sublist ''turn on'' t"
  "sublist ''switch on'' (strip t) = sublist ''switch on'' t"
  "sublist ''turn off'' (strip t) = sublist ''turn off'' t"
  "sublist ''switch off'' (strip t) = sublist ''switch off'' t"
  "sublist ''toggle'' (strip t) = sublist ''toggle'' t"
  by (rule sublist_strip; simp add: isspace_def)+

text \<open>
  Claim C9. The command text, lowered as the interpreter lowers it, contains \<^verbatim>\<open>toggle\<close>
  and none of \<^verbatim>\<open>turn on\<close>, \<^verbatim>\<open>switch on\<close>, \<^verbatim>\<open>turn off\<close>, \<^verbatim>\<open>switch off\<close>. Then the
  interpreter sets the device to \<^verbatim>\<open>"OFF"\<close> when its status is exactly \<^verbatim>\<open>"ON"\<close> and to
  \<^verbatim>\<open>"ON"\<close> for every other status, and returns the matching \<^verbatim>\<open>Toggling\<close> line.
\<close>

theorem toggle_flips_only_from_ON:
  assumes "sublist ''toggle'' (lower command_text)"
    and "\<not> sublist ''turn on'' (lower command_text)"
    and "\<not> sublist ''switch on'' (lower command_text)"
    and "\<not> sublist ''turn off'' (lower command_text)"
    and "\<not> sublist ''switch off'' (lower command_text)"
  shows "CommandInterpreter_interpret command_text d s =
           (''Toggling '' @ name (devices s d) @ '' to '' @ (if state (devices s d) = ''ON'' then ''OFF'' else ''ON''),
            set_state d (if state (devices s d) = ''ON'' then ''OFF'' else ''ON'') s) \<and>
         state (devices (snd (CommandInterpreter_interpret command_text d s)) d) =
           (if state (devices s d) = ''ON'' then ''OFF'' else ''ON'')"
proof -
  have "CommandInterpreter_interpret command_text d s =
           (''Toggling '' @ name (devices s d) @ '' to '' @ (if state (devices s d) = ''ON'' then ''OFF'' else ''ON''),
            set_state d (if state (devices s d) = ''ON'' then ''OFF'' else ''ON'') s)"
    using assms by (simp add: CommandInterpreter_interpret_def keyword_strip Let_def)
  then show ?thesis
    by (simp add: set_state_state)
qed

theorem toggle_flips_only_from_ON_witness:
  "sublist ''toggle'' (lower ''  Toggle Light '') \<and>
   \<not> sublist ''turn on'' (lower ''  Toggle Light '') \<and>
   \<not> sublist ''switch on'' (lower ''  Toggle Light '') \<and>
   \<not> sublist ''turn off'' (lower ''  Toggle Light '') \<and>
   \<not> sublist ''switch off'' (lower ''  Toggle Light '') \<and>
   state (devices demo_heap 0) = ''ON'' \<and>
   state (devices (snd (CommandInterpreter_interpret ''  Toggle Light '' 0 demo_heap)) 0) = ''OFF'' \<and>
   state (devices (set_state 0 ''DIM'' demo_heap) 0) = ''DIM'' \<and>
   state (devices (snd (CommandInterpreter_interpret ''  Toggle Light '' 0 (set_state 0 ''DIM'' demo_heap))) 0) = ''ON'' \<and>
   state (devices (set_state 0 [] demo_heap) 0) = [] \<and>
   state (devices (snd (CommandInterpreter_interpret ''  Toggle Light '' 0 (set_state 0 [] demo_heap))) 0) = ''ON''"
proof -
  have a: "sublist ''toggle'' (lower ''  Toggle Light '')"
    by code_simp
  have b: "\<not> sublist ''turn on'' (lower ''  Toggle Light '')"
    by code_simp
  have c: "\<not> sublist ''switch on'' (lower ''  Toggle Light '')"
    by code_simp
  have e: "\<not> sublist ''turn off'' (lower ''  Toggle Light '')"
    by code_simp
  have f: "\<not> sublist ''switch off'' (lower ''  Toggle Light '')"
    by code_simp
  have g: "state (devices demo_heap 0) = ''ON''"
    by (simp add: demo_heap_def)
  have h: "state (devices (set_state 0 ''DIM'' demo_heap) 0) = ''DIM''"
    "state (devices (set_state 0 [] demo_heap) 0) = []"
    by (simp_all add: set_state_state)
  from toggle_flips_only_from_ON [OF a b c e f, of 0 demo_heap, THEN conjunct2]
       toggle_flips_only_from_ON [OF a b c e f, of 0 "set_state 0 ''DIM'' demo_heap", THEN conjunct2]
       toggle_flips_only_from_ON [OF a b c e f, of 0 "set_state 0 [] demo_heap", THEN conjunct2]
       a b c e f g h
  show ?thesis by simp
qed

section \<open>The alert chain\<close>

lemma handle_alert_step:
  "handle_alert h lvl msg =
     (if category h = lvl then [emits h msg]
      else case successor h of Some nxt \<Rightarrow> handle_alert nxt lvl msg | None \<Rightarrow> [])"
  by (cases h) simp_all

lemma chain_step:
  "chain h = h # (case successor h of Some nxt \<Rightarrow> chain nxt | None \<Rightarrow> [])"
  by (cases h) simp_all

lemma handle_alert_find:
  "handle_alert h lvl msg =
     (case find (\<lambda>k. category k = lvl) (chain h) of Some k \<Rightarrow> [emits k msg] | None \<Rightarrow> [])"
proof (induction h lvl msg rule: handle_alert.induct)
  case (1 next_handler alert_level message)
  then show ?case by (cases next_handler) simp_all
next
  case (2 next_handler alert_level message)
  then show ?case by (cases next_handler) simp_all
next
  case (3 next_handler alert_level message)
  then show ?case by (cases next_handler) simp_all
qed

text \<open>
  Claim C7. For every chain and every alert, the lines printed are the single line of the
  first handler of the chain whose category is the alert's, and nothing when no handler has
  that category. Handler by handler: a handler of the alert's category prints its line and
  nothing comes from its successors; a handler of another category prints nothing itself
  and the result is that of its successor, or no line at all when it has none.
\<close>

theorem handle_alert_first_match:
  "handle_alert h lvl msg =
     (case find (\<lambda>k. category k = lvl) (chain h) of Some k \<Rightarrow> [emits k msg] | None \<Rightarrow> []) \<and>
   (category h = lvl \<longrightarrow> handle_alert h lvl msg = [emits h msg]) \<and>
   (category h \<noteq> lvl \<longrightarrow>
      handle_alert h lvl msg =
        (case successor h of Some nxt \<Rightarrow> handle_alert nxt lvl msg | None \<Rightarrow> [])) \<and>
   ((\<forall>k \<in> set (chain h). category k \<noteq> lvl) \<longrightarrow> handle_alert h lvl msg = [])"
proof -
  have "(\<forall>k \<in> set (chain h). category k \<noteq> lvl) \<longrightarrow> find (\<lambda>k. category k = lvl) (chain h) = None"
    by (simp add: find_None_iff)
  then have "(\<forall>k \<in> set (chain h). category k \<noteq> lvl) \<longrightarrow> handle_alert h lvl msg = []"
    by (simp add: handle_alert_find)
  moreover have "category h = lvl \<longrightarrow> handle_alert h lvl msg = [emits h msg]"
    by (simp add: handle_alert_step)
  moreover have "category h \<noteq> lvl \<longrightarrow>
      handle_alert h lvl msg =
        (case successor h of Some nxt \<Rightarrow> handle_alert nxt lvl msg | None \<Rightarrow> [])"
    using handle_alert_step [of h lvl msg] by simp
  ultimately show ?thesis
    using handle_alert_find [of h lvl msg] by blast
qed

theorem handle_alert_first_match_witness:
  "category (PoliceHandler None) = ''police'' \<and>
   category (MotionHandler (Some (AlarmHandler (Some (PoliceHandler None))))) \<noteq> ''police'' \<and>
   handle_alert (MotionHandler (Some (AlarmHandler (Some (PoliceHandler None))))) ''police'' ''Emergency''
     = [''Police notified! Emergency''] \<and>
   find (\<lambda>k. category k = ''unknown'') (chain (MotionHandler (Some (AlarmHandler (Some (PoliceHandler None)))))) = None \<and>
   handle_alert (MotionHandler (Some (AlarmHandler (Some (PoliceHandler None))))) ''unknown'' ''Test message'' = []"
proof -
  have n: "\<forall>k \<in> set (chain (MotionHandler (Some (AlarmHandler (Some (PoliceHandler None)))))). category k \<noteq> ''unknown''"
    by simp
  from handle_alert_first_match
         [of "MotionHandler (Some (AlarmHandler (Some (PoliceHandler None))))" "''police''" "''Emergency''"]
       handle_alert_first_match
         [of "MotionHandler (Some (AlarmHandler (Some (PoliceHandler None))))" "''unknown''" "''Test message''"]
       n
  show ?thesis by simp
qed

end
